theory Spec2Isabelle
  imports
    Main
    "HOL-Library.Sublist"
    "HOL-Library.Char_ord"
    "HOL-Library.List_Lexorder"
    "HOL-Library.AList"
begin

section \<open>Go strings\<close>

text \<open>
  A Go string is a sequence of bytes; it is modelled as \<^typ>\<open>string\<close>, one
  \<^typ>\<open>char\<close> per byte. \<open>strings.HasPrefix\<close> and \<open>strings.HasSuffix\<close> are
  \<^const>\<open>prefix\<close> and \<^const>\<open>suffix\<close>; \<open>fmt.Sprintf\<close> with \<open>%s\<close> verbs is
  concatenation.
\<close>

definition newline :: char where
  "newline = CHR 0x0A"

definition trimSuffix :: "string \<Rightarrow> string \<Rightarrow> string" where
  \<comment> \<open>\<open>strings.TrimSuffix(s, suf)\<close>\<close>
  "trimSuffix s suf = (if suffix suf s then take (length s - length suf) s else s)"

definition trimPrefix :: "string \<Rightarrow> string \<Rightarrow> string" where
  \<comment> \<open>\<open>strings.TrimPrefix(s, pre)\<close>\<close>
  "trimPrefix s pre = (if prefix pre s then drop (length pre) s else s)"

text \<open>
  \<open>strings.Split(s, sep)\<close> for a separator of one byte, which is every use in the
  source (\<open>"\n"\<close> and \<open>"-"\<close>). The result is never empty: the empty string splits
  into one empty piece.
\<close>

fun splitByte :: "char \<Rightarrow> string \<Rightarrow> string list" where
  "splitByte d [] = [[]]"
| "splitByte d (c # cs) =
     (if c = d then [] # splitByte d cs
      else (case splitByte d cs of
              [] \<Rightarrow> [[c]]
            | piece # pieces \<Rightarrow> (c # piece) # pieces))"

text \<open>\<open>strings.Join(lines, sep)\<close> for a separator of one byte.\<close>

fun joinByte :: "char \<Rightarrow> string list \<Rightarrow> string" where
  "joinByte d [] = []"
| "joinByte d [l] = l"
| "joinByte d (l # m # ls) = l @ d # joinByte d (m # ls)"

text \<open>
  \<open>strings.SplitN(s, sep, 2)\<close> for a non-empty separator: the text before the first
  occurrence of \<open>sep\<close> and the text after it, or the whole string alone when \<open>sep\<close>
  does not occur.
\<close>

fun cutFirst :: "string \<Rightarrow> string \<Rightarrow> (string \<times> string) option" where
  "cutFirst sep [] = None"
| "cutFirst sep (c # cs) =
     (if prefix sep (c # cs) then Some ([], drop (length sep) (c # cs))
      else (case cutFirst sep cs of
              None \<Rightarrow> None
            | Some (a, b) \<Rightarrow> Some (c # a, b)))"

definition splitN2 :: "string \<Rightarrow> string \<Rightarrow> string list" where
  "splitN2 s sep = (case cutFirst sep s of None \<Rightarrow> [s] | Some (a, b) \<Rightarrow> [a, b])"

text \<open>
  \<open>strings.ReplaceAll(s, old, new)\<close> for a non-empty \<open>old\<close> (every use in the
  source): the non-overlapping occurrences of \<open>old\<close> are replaced from left to right,
  and the text put in is not looked at again.
\<close>

function replaceAll :: "string \<Rightarrow> string \<Rightarrow> string \<Rightarrow> string" where
  "replaceAll [] old new = []"
| "replaceAll (c # cs) old new =
     (if old \<noteq> [] \<and> prefix old (c # cs)
      then new @ replaceAll (drop (length old) (c # cs)) old new
      else c # replaceAll cs old new)"
  by pat_completeness auto
termination
  by (relation "measure (\<lambda>(s, old, new). length s)") (auto simp: neq_Nil_conv)

text \<open>
  \<open>strings.NewReplacer(old1, new1, ...).Replace(s)\<close> for non-empty keys. At each
  position the keys are compared in argument order; the first key that matches there is
  replaced by its value and the scan goes on behind the match, so the values written are
  never scanned. A byte where no key matches is copied.
\<close>

fun lookupKey :: "(string \<times> string) list \<Rightarrow> string \<Rightarrow> (string \<times> string) option" where
  "lookupKey [] s = None"
| "lookupKey ((old, new) # ps) s =
     (if old \<noteq> [] \<and> prefix old s then Some (old, new) else lookupKey ps s)"

function replacerReplace :: "(string \<times> string) list \<Rightarrow> string \<Rightarrow> string" where
  "replacerReplace ps [] = []"
| "replacerReplace ps (c # cs) =
     (case lookupKey ps (c # cs) of
        Some (old, new) \<Rightarrow> new @ replacerReplace ps (drop (length old) (c # cs))
      | None \<Rightarrow> c # replacerReplace ps cs)"
  by pat_completeness auto

termination
proof (relation "measure (\<lambda>(ps, s). length s)")
  show "wf (measure (\<lambda>(ps, s). length s))"
    by simp
next
  fix ps :: "(string \<times> string) list" and c :: char and cs :: string
    and x2 :: "string \<times> string" and old new :: string
  assume found: "lookupKey ps (c # cs) = Some x2" and x2: "(old, new) = x2"
  from found x2 have "old \<noteq> []"
    by (induction ps) (auto split: if_splits)
  then show "((ps, drop (length old) (c # cs)), (ps, c # cs)) \<in> measure (\<lambda>(ps, s). length s)"
    by (cases old) auto
next
  fix ps :: "(string \<times> string) list" and c :: char and cs :: string
  show "((ps, cs), (ps, c # cs)) \<in> measure (\<lambda>(ps, s). length s)"
    by simp
qed

section \<open>White space\<close>

text \<open>
  \<open>strings.TrimSpace\<close> removes the leading and trailing runes for which
  \<open>unicode.IsSpace\<close> holds. On bytes these are the UTF-8 encodings of the white
  space code points: the six ASCII ones, U+0085, U+00A0, U+1680, U+2000 to U+200A, U+2028,
  U+2029, U+202F, U+205F and U+3000. A byte sequence that is not one of these encodings
  (an invalid or overlong sequence too) decodes to a rune that is not white space and
  stops the trimming.
\<close>

definition spaceEncodings :: "string list" where
  "spaceEncodings =
     [[CHR 0x20], [CHR 0x09], [CHR 0x0A], [CHR 0x0B], [CHR 0x0C], [CHR 0x0D],
      [CHR 0xC2, CHR 0x85], [CHR 0xC2, CHR 0xA0],
      [CHR 0xE1, CHR 0x9A, CHR 0x80],
      [CHR 0xE2, CHR 0x80, CHR 0x80], [CHR 0xE2, CHR 0x80, CHR 0x81],
      [CHR 0xE2, CHR 0x80, CHR 0x82], [CHR 0xE2, CHR 0x80, CHR 0x83],
      [CHR 0xE2, CHR 0x80, CHR 0x84], [CHR 0xE2, CHR 0x80, CHR 0x85],
      [CHR 0xE2, CHR 0x80, CHR 0x86], [CHR 0xE2, CHR 0x80, CHR 0x87],
      [CHR 0xE2, CHR 0x80, CHR 0x88], [CHR 0xE2, CHR 0x80, CHR 0x89],
      [CHR 0xE2, CHR 0x80, CHR 0x8A],
      [CHR 0xE2, CHR 0x80, CHR 0xA8], [CHR 0xE2, CHR 0x80, CHR 0xA9],
      [CHR 0xE2, CHR 0x80, CHR 0xAF],
      [CHR 0xE2, CHR 0x81, CHR 0x9F],
      [CHR 0xE3, CHR 0x80, CHR 0x80]]"

definition leadingSpace :: "string \<Rightarrow> nat" where
  \<comment> \<open>the width of the white space rune the string starts with, 0 when there is none\<close>
  "leadingSpace s =
     (case find (\<lambda>w. prefix w s) spaceEncodings of None \<Rightarrow> 0 | Some w \<Rightarrow> length w)"

definition trailingSpace :: "string \<Rightarrow> nat" where
  \<comment> \<open>the width of the white space rune the string ends with, 0 when there is none\<close>
  "trailingSpace s =
     (case find (\<lambda>w. suffix w s) spaceEncodings of None \<Rightarrow> 0 | Some w \<Rightarrow> length w)"

function trimLeftSpace :: "string \<Rightarrow> string" where
  "trimLeftSpace s =
     (if leadingSpace s = 0 \<or> s = [] then s else trimLeftSpace (drop (leadingSpace s) s))"
  by pat_completeness auto
termination
  by (relation "measure length") auto

function trimRightSpace :: "string \<Rightarrow> string" where
  "trimRightSpace s =
     (if trailingSpace s = 0 \<or> s = [] then s
      else trimRightSpace (take (length s - trailingSpace s) s))"
  by pat_completeness auto
termination
  by (relation "measure length") auto

declare trimLeftSpace.simps [simp del] trimRightSpace.simps [simp del]

definition trimSpace :: "string \<Rightarrow> string" where
  "trimSpace s = trimRightSpace (trimLeftSpace s)"

section \<open>Numbers\<close>

text \<open>
  \<open>strconv.Atoi\<close>: an optional sign, then one or more decimal digits, and a value
  that fits the 64-bit \<open>int\<close> of the platforms the program is built for (amd64 and
  arm64). Everything else is an error, here \<open>None\<close>.
\<close>

definition isDigit :: "char \<Rightarrow> bool" where
  "isDigit c = (CHR ''0'' \<le> c \<and> c \<le> CHR ''9'')"

definition digitsValue :: "string \<Rightarrow> int" where
  "digitsValue ds = foldl (\<lambda>v c. 10 * v + (int (of_char c) - 48)) 0 ds"

definition maxInt :: int where
  "maxInt = 2 ^ 63 - 1"

definition minInt :: int where
  "minInt = - (2 ^ 63)"

definition Atoi :: "string \<Rightarrow> int option" where
  "Atoi s =
     (let (neg, ds) =
            (case s of
               [] \<Rightarrow> (False, s)
             | c # r \<Rightarrow> if c = CHR ''-'' then (True, r)
                        else if c = CHR ''+'' then (False, r) else (False, s));
          v = (if neg then - digitsValue ds else digitsValue ds)
      in if ds = [] \<or> \<not> list_all isDigit ds then None
         else if v < minInt \<or> maxInt < v then None
         else Some v)"

definition wrapInt :: "int \<Rightarrow> int" where
  \<comment> \<open>the result of 64-bit signed arithmetic: Go wraps around on overflow\<close>
  "wrapInt i = (i + 2 ^ 63) mod 2 ^ 64 - 2 ^ 63"

function showDigits :: "int \<Rightarrow> string" where
  \<comment> \<open>the decimal digits of a number that is not negative\<close>
  "showDigits n =
     (if n < 10 then [char_of (48 + n)]
      else showDigits (n div 10) @ [char_of (48 + n mod 10)])"
  by pat_completeness auto
termination
  by (relation "measure nat") auto

declare showDigits.simps [simp del]

definition sprintf03d :: "int \<Rightarrow> string" where
  \<comment> \<open>\<open>fmt.Sprintf("%03d", i)\<close>: zeros up to a width of three, the sign included\<close>
  "sprintf03d i =
     (if i < 0
      then CHR ''-'' # replicate (2 - length (showDigits (- i))) CHR ''0'' @ showDigits (- i)
      else replicate (3 - length (showDigits i)) CHR ''0'' @ showDigits i)"

section \<open>The record store\<close>

text \<open>
  The directory \<open>docs/adr\<close>: its entries in the order they were created, each a file
  with its content or a subdirectory. \<open>None\<close> is a directory that is absent or cannot
  be read. \<open>os.ReadDir\<close> returns the entries sorted by file name.
\<close>

datatype node = File string | Dir

type_synonym dirEntry = "string \<times> node"

type_synonym store = "dirEntry list option"

datatype error = ReadDirFailed | WriteFailed

definition Name :: "dirEntry \<Rightarrow> string" where
  "Name e = fst e"

definition IsDir :: "dirEntry \<Rightarrow> bool" where
  "IsDir e = (snd e = Dir)"

definition ReadDir :: "store \<Rightarrow> error + dirEntry list" where
  "ReadDir st = (case st of None \<Rightarrow> Inl ReadDirFailed | Some es \<Rightarrow> Inr (sort_key Name es))"


definition indexFile :: string where
  "indexFile = ''README.md''"

definition templateFile :: string where
  "templateFile = ''template.md''"

section \<open>Display titles and the index\<close>

text \<open>
  \<open>cases.Title(language.English).String\<close> belongs to \<open>golang.org/x/text\<close>, not to
  this program: \<open>extractTitleFromFilename\<close> and \<open>updateIndex\<close> take it as the
  parameter \<open>caser\<close>. \<open>titleASCII\<close> is what it computes on ASCII letters, digits and
  spaces: the first letter of each word in upper case, the other letters in lower case,
  digits copied without ending the word. Any other byte is copied and taken to end the
  word.
\<close>

definition isLower :: "char \<Rightarrow> bool" where
  "isLower c = (CHR ''a'' \<le> c \<and> c \<le> CHR ''z'')"

definition isUpper :: "char \<Rightarrow> bool" where
  "isUpper c = (CHR ''A'' \<le> c \<and> c \<le> CHR ''Z'')"

definition toUpper :: "char \<Rightarrow> char" where
  "toUpper c = (if isLower c then char_of (of_char c - (32::nat)) else c)"

definition toLower :: "char \<Rightarrow> char" where
  "toLower c = (if isUpper c then char_of (of_char c + (32::nat)) else c)"

fun titleWords :: "bool \<Rightarrow> string \<Rightarrow> string" where
  "titleWords isMidWord [] = []"
| "titleWords isMidWord (c # cs) =
     (if isLower c \<or> isUpper c
      then (if isMidWord then toLower c else toUpper c) # titleWords True cs
      else c # titleWords (isMidWord \<and> (isDigit c \<or> c = CHR ''_'')) cs)"

definition titleASCII :: "string \<Rightarrow> string" where
  "titleASCII s = titleWords False s"

definition extractTitleFromFilename :: "(string \<Rightarrow> string) \<Rightarrow> string \<Rightarrow> string" where
  "extractTitleFromFilename caser filename =
     (let name = trimSuffix filename ''.md'';
          parts = splitN2 name ''-''
      in if length parts < 2 then filename
         else replaceAll (caser (replaceAll (parts ! 1) ''-'' '' '')) ''Adr '' ''ADR '')"

definition skipped :: "dirEntry \<Rightarrow> bool" where
  \<comment> \<open>the test under which both directory loops \<open>continue\<close>\<close>
  "skipped file =
     (IsDir file \<or> \<not> suffix ''.md'' (Name file) \<or> Name file = indexFile
        \<or> Name file = templateFile)"

definition indexHeading :: string where
  \<comment> \<open>the heading literal of \<open>main.go\<close>, byte for byte\<close>
  "indexHeading =
     ''# '' @ [CHR 0xC3, CHR 0xB0, CHR 0xC5, CHR 0xB8, CHR 0xE2, CHR 0x80, CHR 0x9C,
              CHR 0xE2, CHR 0x80, CHR 0x9E]
       @ '' Architecture Decision Records'' @ [newline, newline]"

definition indexLine :: "(string \<Rightarrow> string) \<Rightarrow> string \<Rightarrow> string" where
  \<comment> \<open>\<open>fmt.Sprintf("- [%s](%s)\n", title, adr)\<close> with \<open>title\<close> extracted from \<open>adr\<close>\<close>
  "indexLine caser adr =
     ''- ['' @ extractTitleFromFilename caser adr @ '']('' @ adr @ '')'' @ [newline]"

definition recordNames :: "dirEntry list \<Rightarrow> string list" where
  \<comment> \<open>the first loop of \<open>updateIndex\<close>: the names that are not skipped, in listing order\<close>
  "recordNames files = foldl (\<lambda>adrs file. if skipped file then adrs else adrs @ [Name file]) [] files"

definition indexContent :: "(string \<Rightarrow> string) \<Rightarrow> dirEntry list \<Rightarrow> string" where
  \<comment> \<open>\<open>updateIndex\<close> between the directory listing and the write\<close>
  "indexContent caser files =
     foldl (\<lambda>content adr. content @ indexLine caser adr) indexHeading
       (sort (recordNames files))"


section \<open>The next sequence number\<close>

definition getNextADRNumber :: "store \<Rightarrow> string" where
  "getNextADRNumber st =
     (case ReadDir st of
        Inl err \<Rightarrow> ''001''
      | Inr files \<Rightarrow>
          sprintf03d (wrapInt
            (foldl (\<lambda>maxNum file.
                      if skipped file then maxNum
                      else if prefix ''adr-'' (Name file)
                      then (case Atoi (hd (splitByte CHR ''-'' (trimPrefix (Name file) ''adr-''))) of
                              Some num \<Rightarrow> if num > maxNum then num else maxNum
                            | None \<Rightarrow> maxNum)
                      else maxNum)
               0 files + 1)))"

section \<open>Templates\<close>

definition renderTemplate :: "string \<Rightarrow> string \<Rightarrow> string \<Rightarrow> string \<Rightarrow> string \<Rightarrow> string" where
  "renderTemplate template number status title date =
     replacerReplace
       [(''{{number}}'', number), (''{{status}}'', status),
        (''{{title}}'', title), (''{{date}}'', date)]
       template"

section \<open>The status merge\<close>

definition statusMarker :: string where
  "statusMarker = ''**Status**: ''"

definition prevMarker :: string where
  "prevMarker = ''**Previous Status**: ''"

definition dateMarker :: string where
  "dateMarker = ''**Date**: ''"

definition headingMarker :: string where
  "headingMarker = ''# ADR''"

fun firstStatus :: "string list \<Rightarrow> string" where
  \<comment> \<open>the loop of \<open>getCurrentStatus\<close>\<close>
  "firstStatus [] = []"
| "firstStatus (line # rest) =
     (if prefix statusMarker line then trimSpace (trimPrefix line statusMarker)
      else firstStatus rest)"

definition getCurrentStatus :: "string \<Rightarrow> string" where
  "getCurrentStatus content = firstStatus (splitByte newline content)"

text \<open>
  The first loop of \<open>updateStatus\<close>, over the state
  \<open>(newLines, statusFound, dateFound)\<close>.
\<close>

fun rewriteLoop ::
  "string \<Rightarrow> string \<Rightarrow> string list \<Rightarrow> string list \<times> bool \<times> bool
     \<Rightarrow> string list \<times> bool \<times> bool" where
  "rewriteLoop newStatus currentStatus [] st = st"
| "rewriteLoop newStatus currentStatus (line # rest) (newLines, statusFound, dateFound) =
     (if prefix statusMarker line then
        (if \<not> statusFound then
           rewriteLoop newStatus currentStatus rest
             (newLines @ [statusMarker @ newStatus @ ''  '']
                @ [prevMarker @ currentStatus @ ''  ''], True, dateFound)
         else rewriteLoop newStatus currentStatus rest (newLines, statusFound, dateFound))
      else if prefix prevMarker line then
        rewriteLoop newStatus currentStatus rest (newLines, statusFound, dateFound)
      else if prefix dateMarker line then
        (if \<not> dateFound then
           rewriteLoop newStatus currentStatus rest (newLines @ [line], statusFound, True)
         else rewriteLoop newStatus currentStatus rest (newLines, statusFound, dateFound))
      else rewriteLoop newStatus currentStatus rest (newLines @ [line], statusFound, dateFound))"

text \<open>The second loop, over the state \<open>(result, titleFound)\<close>.\<close>

fun insertLoop ::
  "string \<Rightarrow> string \<Rightarrow> string list \<Rightarrow> string list \<times> bool \<Rightarrow> string list \<times> bool" where
  "insertLoop newStatus currentStatus [] st = st"
| "insertLoop newStatus currentStatus (line # rest) (result, titleFound) =
     (if prefix headingMarker line then
        insertLoop newStatus currentStatus rest
          (result @ [line] @ [[]] @ [statusMarker @ newStatus]
             @ [prevMarker @ currentStatus], True)
      else insertLoop newStatus currentStatus rest (result @ [line], titleFound))"

definition updateStatus :: "string \<Rightarrow> string \<Rightarrow> string" where
  "updateStatus content newStatus =
     (let currentStatus = getCurrentStatus content in
      if currentStatus = newStatus then content
      else
        (let lines = splitByte newline content;
             (newLines, statusFound, dateFound) =
               rewriteLoop newStatus currentStatus lines ([], False, False)
         in if \<not> statusFound then
              (let (result, titleFound) =
                     insertLoop newStatus currentStatus newLines ([], False)
               in if \<not> titleFound then
                    joinByte newline
                      ([statusMarker @ newStatus, prevMarker @ currentStatus, []] @ result)
                  else joinByte newline result)
            else joinByte newline newLines))"

section \<open>Titles\<close>

fun firstTitle :: "string list \<Rightarrow> string" where
  \<comment> \<open>the loop of \<open>getCurrentTitle\<close>\<close>
  "firstTitle [] = []"
| "firstTitle (line # rest) =
     (if prefix headingMarker line \<and> length (splitN2 line '': '') = 2
      then splitN2 line '': '' ! 1
      else firstTitle rest)"

definition getCurrentTitle :: "string \<Rightarrow> string" where
  "getCurrentTitle content = firstTitle (splitByte newline content)"

fun retitle :: "string \<Rightarrow> string list \<Rightarrow> string list" where
  \<comment> \<open>the loop of \<open>updateTitle\<close>, which stops at the first heading it rewrites\<close>
  "retitle newTitle [] = []"
| "retitle newTitle (line # rest) =
     (if prefix headingMarker line \<and> length (splitN2 line '': '') = 2
      then (splitN2 line '': '' ! 0 @ '': '' @ newTitle) # rest
      else line # retitle newTitle rest)"

definition updateTitle :: "string \<Rightarrow> string \<Rightarrow> string" where
  "updateTitle content newTitle =
     joinByte newline (retitle newTitle (splitByte newline content))"

section \<open>The two front ends on an existing record\<close>

text \<open>
  What each \<open>main\<close> writes back to the file of an existing record, from the content it
  read. The prompt form (\<open>main.go\<close>) merges the status and then rewrites the title;
  the flag form replaces the status marker textually.
\<close>

definition promptUpdateContent :: "string \<Rightarrow> string \<Rightarrow> string \<Rightarrow> string" where
  "promptUpdateContent existingContent status title =
     updateTitle (updateStatus existingContent status) title"

definition flagUpdateContent :: "string \<Rightarrow> string \<Rightarrow> string" where
  "flagUpdateContent existingContent status =
     replaceAll existingContent ''**Status**: ''
       (''**Status**: '' @ status @ [newline] @ ''**Previous Status**: '')"

section \<open>The index and the numbering in the words of the specification\<close>



text \<open>The number a directory entry contributes to the numbering, if any.\<close>

definition parsedNumber :: "dirEntry \<Rightarrow> int option" where
  "parsedNumber file =
     (if skipped file \<or> \<not> prefix ''adr-'' (Name file) then None
      else Atoi (hd (splitByte CHR ''-'' (trimPrefix (Name file) ''adr-''))))"

section \<open>The status merge without its loop state\<close>

text \<open>
  The lines the first loop of \<open>updateStatus\<close> copies: every line that is neither a
  status line nor a previous-status line, except the date lines behind the first one.
  The flag says whether a date line was met before.
\<close>

fun keptLines :: "bool \<Rightarrow> string list \<Rightarrow> string list" where
  "keptLines dateFound [] = []"
| "keptLines dateFound (line # rest) =
     (if prefix statusMarker line \<or> prefix prevMarker line then keptLines dateFound rest
      else if prefix dateMarker line then
        (if dateFound then keptLines True rest else line # keptLines True rest)
      else line # keptLines dateFound rest)"

definition otherLines :: "string list \<Rightarrow> string list" where
  "otherLines lines = keptLines False lines"

text \<open>
  What the two loops build from the lines of a body, in one expression: the pair of new
  lines at the place of the first status line; without a status line, a blank line and
  the pair behind every heading line; without a heading line either, the pair and a blank
  line in front.
\<close>

definition mergedLines :: "string \<Rightarrow> string \<Rightarrow> string list \<Rightarrow> string list" where
  "mergedLines newStatus currentStatus lines =
     (if \<exists>l\<in>set lines. prefix statusMarker l then
        otherLines (takeWhile (\<lambda>l. \<not> prefix statusMarker l) lines)
          @ [statusMarker @ newStatus @ ''  '', prevMarker @ currentStatus @ ''  '']
          @ drop (length (otherLines (takeWhile (\<lambda>l. \<not> prefix statusMarker l) lines)))
              (otherLines lines)
      else if \<exists>l\<in>set (otherLines lines). prefix headingMarker l then
        concat (map (\<lambda>l. if prefix headingMarker l
                          then [l, [], statusMarker @ newStatus, prevMarker @ currentStatus]
                          else [l])
                  (otherLines lines))
      else [statusMarker @ newStatus, prevMarker @ currentStatus, []] @ otherLines lines)"

section \<open>Words for the claims about the status merge\<close>

definition bodyLines :: "string \<Rightarrow> string list" where
  \<comment> \<open>the lines of a record body, as \<open>updateStatus\<close> splits it\<close>
  "bodyLines content = splitByte newline content"

definition isStatusLine :: "string \<Rightarrow> bool" where
  "isStatusLine line = prefix statusMarker line"

definition isPrevLine :: "string \<Rightarrow> bool" where
  "isPrevLine line = prefix prevMarker line"

definition isHeadingLine :: "string \<Rightarrow> bool" where
  "isHeadingLine line = prefix headingMarker line"


definition beforeStatus :: "string list \<Rightarrow> string list" where
  \<comment> \<open>the lines in front of the first status line\<close>
  "beforeStatus lines = takeWhile (\<lambda>l. \<not> prefix statusMarker l) lines"

section \<open>Facts about the index\<close>

lemma splitByte_nonempty: "splitByte d s \<noteq> []"
  by (induction s) (auto split: list.splits)

lemma cutFirst_absent: "d \<notin> set s \<Longrightarrow> cutFirst [d] s = None"
  by (induction s) auto

lemma foldl_append_step:
  "foldl (\<lambda>acc x. if p x then acc else acc @ [f x]) acc xs = acc @ map f (filter (\<lambda>x. \<not> p x) xs)"
  by (induction xs arbitrary: acc) auto

lemma recordNames_filter: "recordNames files = map Name (filter (\<lambda>f. \<not> skipped f) files)"
  by (simp add: recordNames_def foldl_append_step)

lemma foldl_append_concat: "foldl (\<lambda>acc x. acc @ g x) acc xs = acc @ concat (map g xs)"
  by (induction xs arbitrary: acc) auto

lemma indexContent_concat:
  "indexContent caser files =
     indexHeading @ concat (map (indexLine caser) (sort (recordNames files)))"
  by (simp add: indexContent_def foldl_append_concat)

lemma concat_map_member:
  "x \<in> set xs \<Longrightarrow> \<exists>a b. concat (map g xs) = a @ g x @ b"
  by (metis concat_append concat.simps(2) list.simps(9) map_append split_list)


text \<open>
  Claim C10. A file name with no hyphen left once the \<open>.md\<close> extension is taken off
  is its own display title, extension included; when such a file is in the listing, is
  not a directory, ends in \<open>.md\<close> and is not one of the two reserved names, the index
  holds the entry \<open>- [name](name)\<close> for it.
\<close>

theorem display_title_without_hyphen:
  assumes "CHR ''-'' \<notin> set (trimSuffix filename ''.md'')"
  shows "extractTitleFromFilename caser filename = filename \<and>
         (\<forall>entry files.
            entry \<in> set files \<and> Name entry = filename \<and> \<not> IsDir entry \<and> suffix ''.md'' filename
              \<and> filename \<noteq> indexFile \<and> filename \<noteq> templateFile
            \<longrightarrow> (\<exists>a b. indexContent caser files
                  = a @ (''- ['' @ filename @ '']('' @ filename @ '')'' @ [newline]) @ b))"
proof (intro conjI allI impI)
  show title: "extractTitleFromFilename caser filename = filename"
    using assms by (simp add: extractTitleFromFilename_def splitN2_def cutFirst_absent)
  fix entry :: dirEntry and files
  assume "entry \<in> set files \<and> Name entry = filename \<and> \<not> IsDir entry \<and> suffix ''.md'' filename
              \<and> filename \<noteq> indexFile \<and> filename \<noteq> templateFile"
  then have "filename \<in> set (sort (recordNames files))"
    by (auto simp: recordNames_filter skipped_def)
  from concat_map_member[OF this, of "indexLine caser"]
  obtain a b where "concat (map (indexLine caser) (sort (recordNames files)))
      = a @ indexLine caser filename @ b"
    by blast
  then have "indexContent caser files = (indexHeading @ a) @ indexLine caser filename @ b"
    by (simp add: indexContent_concat)
  then show "\<exists>a b. indexContent caser files
                  = a @ (''- ['' @ filename @ '']('' @ filename @ '')'' @ [newline]) @ b"
    unfolding indexLine_def title by blast
qed

theorem display_title_without_hyphen_witness:
  "CHR ''-'' \<notin> set (trimSuffix ''simple.md'' ''.md'')
   \<and> extractTitleFromFilename titleASCII ''simple.md'' = ''simple.md''
   \<and> (\<exists>a b. indexContent titleASCII [(''adr-001-a.md'', File []), (''simple.md'', File [])]
          = a @ ''- [simple.md](simple.md)'' @ [newline] @ b)"
proof -
  have h: "CHR ''-'' \<notin> set (trimSuffix ''simple.md'' ''.md'')"
    by (simp add: trimSuffix_def)
  have m: "(''simple.md'', File []) \<in> set [(''adr-001-a.md'', File []), (''simple.md'', File [])]
     \<and> Name (''simple.md'', File []) = ''simple.md'' \<and> \<not> IsDir (''simple.md'', File [])
     \<and> suffix ''.md'' ''simple.md'' \<and> ''simple.md'' \<noteq> indexFile \<and> ''simple.md'' \<noteq> templateFile"
    by (simp add: Name_def IsDir_def indexFile_def templateFile_def suffix_def)
  from display_title_without_hyphen[OF h, of titleASCII] m
  have "\<exists>a b. indexContent titleASCII [(''adr-001-a.md'', File []), (''simple.md'', File [])]
          = a @ (''- ['' @ ''simple.md'' @ '']('' @ ''simple.md'' @ '')'' @ [newline]) @ b"
    by blast
  with display_title_without_hyphen[OF h, of titleASCII] h show ?thesis
    by simp
qed







text \<open>
  On a canonical name the first hyphen is the one behind \<open>adr\<close>: what is split off
  is that prefix, and the sequence number goes into the title.
\<close>

lemma canonical_name_title:
  "extractTitleFromFilename caser (''adr-'' @ rest @ ''.md'')
     = replaceAll (caser (replaceAll rest ''-'' '' '')) ''Adr '' ''ADR ''"
proof -
  have "trimSuffix (''adr-'' @ rest @ ''.md'') ''.md'' = ''adr-'' @ rest"
    by (simp add: trimSuffix_def suffix_def)
  then show ?thesis
    by (simp add: extractTitleFromFilename_def splitN2_def)
qed

text \<open>
  Claim C7. The display title of a canonical record name leaves the sequence number out.
  The code does not do this: for \<open>adr-001-database-choice.md\<close> the display title is
  \<open>001 Database Choice\<close>.
\<close>

theorem canonical_name_keeps_number:
  "extractTitleFromFilename titleASCII ''adr-001-database-choice.md'' = ''001 Database Choice''"
  by code_simp

section \<open>Facts about the numbering\<close>

lemma maxNum_step:
  "(\<lambda>maxNum file.
            if skipped file then maxNum
            else if prefix ''adr-'' (Name file)
            then (case Atoi (hd (splitByte CHR ''-'' (trimPrefix (Name file) ''adr-''))) of
                    Some num \<Rightarrow> if num > maxNum then num else maxNum
                  | None \<Rightarrow> maxNum)
            else maxNum)
     = (\<lambda>maxNum file. case parsedNumber file of None \<Rightarrow> maxNum | Some num \<Rightarrow> max maxNum num)"
  by (intro ext) (auto simp: parsedNumber_def max_def split: option.splits)

lemma foldl_max_map_filter:
  fixes m :: int
  shows "foldl (\<lambda>m x. case g x of None \<Rightarrow> m | Some n \<Rightarrow> max m n) m xs
           = Max (set (m # List.map_filter g xs))"
proof (induction xs arbitrary: m)
  case Nil
  then show ?case by simp
next
  case (Cons x xs)
  show ?case
  proof (cases "g x")
    case None
    then show ?thesis
      using Cons.IH[of m] by simp
  next
    case (Some n)
    have "Max (insert (max m n) (set (List.map_filter g xs)))
        = Max (insert m (insert n (set (List.map_filter g xs))))"
      by (cases "set (List.map_filter g xs) = {}") (simp_all add: max.assoc)
    with Some show ?thesis
      using Cons.IH[of "max m n"] by simp
  qed
qed

lemma maxNum_loop:
  "foldl (\<lambda>maxNum file.
            if skipped file then maxNum
            else if prefix ''adr-'' (Name file)
            then (case Atoi (hd (splitByte CHR ''-'' (trimPrefix (Name file) ''adr-''))) of
                    Some num \<Rightarrow> if num > maxNum then num else maxNum
                  | None \<Rightarrow> maxNum)
            else maxNum) m files
     = Max (set (m # List.map_filter parsedNumber files))"
  unfolding maxNum_step by (rule foldl_max_map_filter)

lemma set_map_filter_sort_key:
  "set (List.map_filter g (sort_key k xs)) = set (List.map_filter g xs)"
  by (auto simp: List.map_filter_def)

text \<open>
  Below the greatest 64-bit number the loop and the increment give the greatest parsed
  number plus one (the start value 0 counts as parsed, which covers the empty store).
\<close>

lemma next_number_below_maxInt:
  assumes "Max (set (0 # List.map_filter parsedNumber files)) < maxInt"
  shows "getNextADRNumber (Some files)
           = sprintf03d (Max (set (0 # List.map_filter parsedNumber files)) + 1)"
proof -
  let ?M = "Max (set (0 # List.map_filter parsedNumber files))"
  have "0 \<le> ?M"
    by simp
  with assms have "wrapInt (?M + 1) = ?M + 1"
    by (simp add: wrapInt_def maxInt_def)
  moreover have "Max (set (0 # List.map_filter parsedNumber (sort_key Name files))) = ?M"
    using set_map_filter_sort_key[of parsedNumber Name files] by simp
  ultimately show ?thesis
    by (simp add: getNextADRNumber_def ReadDir_def maxNum_loop del: list.set)
qed

text \<open>
  Claim C5. The next number is the greatest parsed number plus one, with zeros up to three
  digits. At the greatest 64-bit number the addition wraps around and the code returns a
  negative number.
\<close>

theorem next_number_wraps:
  "getNextADRNumber (Some [(''adr-9223372036854775807-x.md'', File [])])
     = ''-9223372036854775808''"
  by code_simp

section \<open>Facts about rendering\<close>

lemma lookupKey_prefix: "lookupKey ps s = Some (old, new) \<Longrightarrow> old \<noteq> [] \<and> prefix old s \<and> (old, new) \<in> set ps"
  by (induction ps) (auto split: if_splits)

lemma drop_prefix_append: "prefix a b \<Longrightarrow> drop (length a) (b @ x) = drop (length a) b @ x"
  by (auto simp: prefix_def)

lemma replacer_split:
  assumes here: "\<And>x. lookupKey ps (tok @ x) = Some (tok, val)"
    and before: "\<And>pre x. pre \<noteq> [] \<Longrightarrow> lookupKey ps (pre @ tok @ x) = lookupKey ps pre"
  shows "replacerReplace ps (pre @ tok @ post)
           = replacerReplace ps pre @ val @ replacerReplace ps post"
proof (induction pre rule: length_induct)
  case (1 pre)
  show ?case
  proof (cases pre)
    case Nil
    have "tok \<noteq> []"
      using here[of "[]"] by (auto dest: lookupKey_prefix)
    then obtain c cs where tok: "tok @ post = c # cs"
      by (cases tok) auto
    have "replacerReplace ps (c # cs) = val @ replacerReplace ps (drop (length tok) (c # cs))"
      using here[of post] unfolding tok by simp
    moreover have "drop (length tok) (c # cs) = post"
      using tok by (metis append_eq_conv_conj)
    ultimately show ?thesis
      using tok Nil by simp
  next
    case (Cons c cs)
    have same: "lookupKey ps ((c # cs) @ tok @ post) = lookupKey ps (c # cs)"
      by (rule before) simp
    show ?thesis
    proof (cases "lookupKey ps (c # cs)")
      case None
      moreover have "replacerReplace ps (cs @ tok @ post)
          = replacerReplace ps cs @ val @ replacerReplace ps post"
        using 1 Cons by simp
      ultimately show ?thesis
        using same Cons by simp
    next
      case (Some kv)
      obtain old new where kv: "kv = (old, new)"
        by (cases kv)
      with Some have old: "prefix old (c # cs)" "old \<noteq> []"
        by (auto dest: lookupKey_prefix)
      from old(1) have "drop (length old) ((c # cs) @ tok @ post)
          = drop (length old) (c # cs) @ tok @ post"
        by (rule drop_prefix_append)
      moreover have "length (drop (length old) (c # cs)) < length pre"
        using old Cons by (cases old) auto
      then have "replacerReplace ps (drop (length old) (c # cs) @ tok @ post)
         = replacerReplace ps (drop (length old) (c # cs)) @ val @ replacerReplace ps post"
        using 1 by blast
      ultimately show ?thesis
        using same Some kv Cons by simp
    qed
  qed
qed

lemma replacer_untouched:
  assumes "\<forall>(old, new) \<in> set ps. \<not> sublist old s"
  shows "replacerReplace ps s = s"
  using assms
proof (induction s)
  case Nil
  then show ?case by simp
next
  case (Cons c cs)
  have "lookupKey ps (c # cs) = None"
  proof (cases "lookupKey ps (c # cs)")
    case (Some kv)
    then obtain old new where "lookupKey ps (c # cs) = Some (old, new)"
      by (cases kv) auto
    then have "prefix old (c # cs)" "(old, new) \<in> set ps"
      by (auto dest: lookupKey_prefix)
    with Cons.prems show ?thesis
      by (auto simp: sublist_Cons_right)
  qed simp
  moreover have "replacerReplace ps cs = cs"
    using Cons by (auto simp: sublist_Cons_right)
  ultimately show ?case
    by simp
qed

text \<open>
  No placeholder can start before an occurrence of \<open>{{\<close> and run into it: the only
  braces of a placeholder behind its first byte are its second byte and its last two.
\<close>

lemma no_straddle:
  assumes "pre \<noteq> []"
    and "k \<in> {''{{number}}'', ''{{status}}'', ''{{title}}'', ''{{date}}''}"
  shows "prefix k (pre @ CHR ''{'' # CHR ''{'' # x) = prefix k pre"
  using assms
  by (auto simp: prefix_append Cons_eq_append_conv prefix_Cons)


lemma placeholder_lookup:
  fixes ps :: "(string \<times> string) list"
  assumes ps: "ps = [(''{{number}}'', number), (''{{status}}'', status),
                     (''{{title}}'', title), (''{{date}}'', date)]"
  shows "lookupKey ps (''{{number}}'' @ x) = Some (''{{number}}'', number)"
    and "lookupKey ps (''{{status}}'' @ x) = Some (''{{status}}'', status)"
    and "lookupKey ps (''{{title}}'' @ x) = Some (''{{title}}'', title)"
    and "lookupKey ps (''{{date}}'' @ x) = Some (''{{date}}'', date)"
    and "pre \<noteq> [] \<Longrightarrow> lookupKey ps (pre @ CHR ''{'' # CHR ''{'' # y) = lookupKey ps pre"
proof -
  show "lookupKey ps (''{{number}}'' @ x) = Some (''{{number}}'', number)"
    and "lookupKey ps (''{{status}}'' @ x) = Some (''{{status}}'', status)"
    and "lookupKey ps (''{{title}}'' @ x) = Some (''{{title}}'', title)"
    and "lookupKey ps (''{{date}}'' @ x) = Some (''{{date}}'', date)"
    by (simp_all add: ps)
  assume "pre \<noteq> []"
  then show "lookupKey ps (pre @ CHR ''{'' # CHR ''{'' # y) = lookupKey ps pre"
    by (simp add: ps no_straddle)
qed

text \<open>
  Claim C8. Rendering is a total function. Wherever one of the four placeholders occurs
  in the template, the output is the rendering of the text before it, then the value as
  it is (never scanned for placeholders), then the rendering of the text behind it; this
  holds for every occurrence, so repeated placeholders are all replaced. A template in
  which none of the four placeholders occurs, whatever other tokens it holds, is returned
  unchanged.
\<close>

theorem render_replaces_every_placeholder:
  "renderTemplate (pre @ ''{{number}}'' @ post) number status title date
     = renderTemplate pre number status title date @ number
         @ renderTemplate post number status title date
   \<and> renderTemplate (pre @ ''{{status}}'' @ post) number status title date
     = renderTemplate pre number status title date @ status
         @ renderTemplate post number status title date
   \<and> renderTemplate (pre @ ''{{title}}'' @ post) number status title date
     = renderTemplate pre number status title date @ title
         @ renderTemplate post number status title date
   \<and> renderTemplate (pre @ ''{{date}}'' @ post) number status title date
     = renderTemplate pre number status title date @ date
         @ renderTemplate post number status title date
   \<and> ((\<forall>token \<in> {''{{number}}'', ''{{status}}'', ''{{title}}'', ''{{date}}''}.
          \<not> sublist token template)
        \<longrightarrow> renderTemplate template number status title date = template)"
proof -
  define ps where "ps = [(''{{number}}'', number), (''{{status}}'', status),
                         (''{{title}}'', title), (''{{date}}'', date)]"
  note look = placeholder_lookup[OF ps_def]
  have "replacerReplace ps (pre @ ''{{number}}'' @ post)
      = replacerReplace ps pre @ number @ replacerReplace ps post"
    by (rule replacer_split) (use look in simp_all)
  moreover have "replacerReplace ps (pre @ ''{{status}}'' @ post)
      = replacerReplace ps pre @ status @ replacerReplace ps post"
    by (rule replacer_split) (use look in simp_all)
  moreover have "replacerReplace ps (pre @ ''{{title}}'' @ post)
      = replacerReplace ps pre @ title @ replacerReplace ps post"
    by (rule replacer_split) (use look in simp_all)
  moreover have "replacerReplace ps (pre @ ''{{date}}'' @ post)
      = replacerReplace ps pre @ date @ replacerReplace ps post"
    by (rule replacer_split) (use look in simp_all)
  moreover have "replacerReplace ps template = template"
    if "\<forall>token \<in> {''{{number}}'', ''{{status}}'', ''{{title}}'', ''{{date}}''}.
          \<not> sublist token template"
    by (rule replacer_untouched) (use that in \<open>simp add: ps_def\<close>)
  ultimately show ?thesis
    unfolding renderTemplate_def ps_def by blast
qed

theorem render_replaces_every_placeholder_witness:
  "\<not> sublist ''{{number}}'' ''# {{id}} {title}''
   \<and> \<not> sublist ''{{status}}'' ''# {{id}} {title}''
   \<and> \<not> sublist ''{{title}}'' ''# {{id}} {title}''
   \<and> \<not> sublist ''{{date}}'' ''# {{id}} {title}''
   \<and> renderTemplate ''# {{id}} {title}'' ''001'' ''Accepted'' ''T'' ''2024-03-20''
       = ''# {{id}} {title}''
   \<and> renderTemplate (''#'' @ ''{{title}}'' @ '' {{title}}'') ''001'' ''Accepted'' ''{{date}}'' ''2024-03-20''
       = ''#{{date}} {{date}}''"
proof -
  have h: "\<forall>token \<in> {''{{number}}'', ''{{status}}'', ''{{title}}'', ''{{date}}''}.
       \<not> sublist token ''# {{id}} {title}''"
    by (simp add: sublist_Cons_right prefix_Cons)
  have v: "renderTemplate '' {{title}}'' ''001'' ''Accepted'' ''{{date}}'' ''2024-03-20'' = '' {{date}}''"
    "renderTemplate ''#'' ''001'' ''Accepted'' ''{{date}}'' ''2024-03-20'' = ''#''"
    by code_simp+
  from render_replaces_every_placeholder
         [of "''#''" "'' {{title}}''" "''001''" "''Accepted''" "''{{date}}''" "''2024-03-20''" "[]"]
  have "renderTemplate (''#'' @ ''{{title}}'' @ '' {{title}}'') ''001'' ''Accepted'' ''{{date}}'' ''2024-03-20''
       = ''#{{date}} {{date}}''"
    unfolding v by simp
  with render_replaces_every_placeholder
         [of "[]" "[]" "''001''" "''Accepted''" "''T''" "''2024-03-20''" "''# {{id}} {title}''"] h
  show ?thesis
    by simp
qed

section \<open>Facts about lines\<close>

lemma splitByte_single: "d \<notin> set l \<Longrightarrow> splitByte d l = [l]"
  by (induction l) auto

lemma splitByte_append: "splitByte d (a @ d # b) = splitByte d a @ splitByte d b"
proof (induction a)
  case Nil
  then show ?case by simp
next
  case (Cons c a)
  then show ?case
    using splitByte_nonempty[of d a] by (cases "splitByte d a") auto
qed

lemma splitByte_free: "l \<in> set (splitByte d s) \<Longrightarrow> d \<notin> set l"
proof (induction s arbitrary: l)
  case Nil
  then show ?case by simp
next
  case (Cons c s)
  then show ?case
    using splitByte_nonempty[of d s]
    by (cases "splitByte d s") (auto split: if_splits)
qed

lemma splitByte_joinByte_concat:
  "ls \<noteq> [] \<Longrightarrow> splitByte d (joinByte d ls) = concat (map (splitByte d) ls)"
proof (induction d ls rule: joinByte.induct)
  case (3 d l m ls)
  then show ?case
    by (simp add: splitByte_append[simplified])
qed simp_all

lemma splitByte_joinByte:
  assumes "ls \<noteq> []" "\<forall>l\<in>set ls. d \<notin> set l"
  shows "splitByte d (joinByte d ls) = ls"
proof -
  have "concat (map (splitByte d) ls) = concat (map (\<lambda>l. [l]) ls)"
    using assms(2) by (intro arg_cong[where f=concat] map_cong) (simp_all add: splitByte_single)
  then show ?thesis
    using assms(1) by (simp add: splitByte_joinByte_concat)
qed

lemma joinByte_splitByte: "joinByte d (splitByte d s) = s"
proof (induction s)
  case Nil
  then show ?case by simp
next
  case (Cons c s)
  show ?case
  proof (cases "splitByte d s")
    case Nil
    then show ?thesis using splitByte_nonempty[of d s] by simp
  next
    case (Cons p ps)
    then show ?thesis
      using Cons.IH by (cases ps) auto
  qed
qed

section \<open>Facts about white space\<close>

lemma leadingSpace_le: "leadingSpace s \<le> length s"
  by (auto simp: leadingSpace_def find_Some_iff split: option.splits dest: prefix_length_le)

lemma trailingSpace_le: "trailingSpace s \<le> length s"
  by (auto simp: trailingSpace_def find_Some_iff split: option.splits dest: suffix_length_le)

lemma trimLeftSpace_length: "length (trimLeftSpace s) \<le> length s"
proof (induction s rule: trimLeftSpace.induct)
  case (1 s)
  show ?case
  proof (cases "leadingSpace s = 0 \<or> s = []")
    case True
    then show ?thesis by (subst trimLeftSpace.simps) simp
  next
    case False
    with 1 have "length (trimLeftSpace (drop (leadingSpace s) s)) \<le> length s - leadingSpace s"
      by simp
    with False show ?thesis
      by (subst trimLeftSpace.simps) simp
  qed
qed

lemma trimRightSpace_length: "length (trimRightSpace s) \<le> length s"
proof (induction s rule: trimRightSpace.induct)
  case (1 s)
  show ?case
  proof (cases "trailingSpace s = 0 \<or> s = []")
    case True
    then show ?thesis by (subst trimRightSpace.simps) simp
  next
    case False
    with 1 have "length (trimRightSpace (take (length s - trailingSpace s) s)) \<le> length s - trailingSpace s"
      by simp
    with False show ?thesis
      by (subst trimRightSpace.simps) simp
  qed
qed

lemma trimLeftSpace_set: "set (trimLeftSpace s) \<subseteq> set s"
proof (induction s rule: trimLeftSpace.induct)
  case (1 s)
  show ?case
  proof (cases "leadingSpace s = 0 \<or> s = []")
    case True
    then show ?thesis by (subst trimLeftSpace.simps) simp
  next
    case False
    with 1 have "set (trimLeftSpace (drop (leadingSpace s) s)) \<subseteq> set (drop (leadingSpace s) s)"
      by simp
    with False show ?thesis
      by (subst trimLeftSpace.simps) (auto dest: in_set_dropD)
  qed
qed

lemma trimRightSpace_set: "set (trimRightSpace s) \<subseteq> set s"
proof (induction s rule: trimRightSpace.induct)
  case (1 s)
  show ?case
  proof (cases "trailingSpace s = 0 \<or> s = []")
    case True
    then show ?thesis by (subst trimRightSpace.simps) simp
  next
    case False
    with 1 have "set (trimRightSpace (take (length s - trailingSpace s) s))
        \<subseteq> set (take (length s - trailingSpace s) s)"
      by simp
    with False show ?thesis
      by (subst trimRightSpace.simps) (auto dest: in_set_takeD)
  qed
qed

lemma trimSpace_set: "set (trimSpace s) \<subseteq> set s"
  unfolding trimSpace_def using trimLeftSpace_set trimRightSpace_set by blast

lemma trimLeftSpace_fixed: "trimLeftSpace s = s \<longleftrightarrow> leadingSpace s = 0 \<or> s = []"
proof
  assume eq: "trimLeftSpace s = s"
  show "leadingSpace s = 0 \<or> s = []"
  proof (rule ccontr)
    assume no: "\<not> (leadingSpace s = 0 \<or> s = [])"
    then have "trimLeftSpace s = trimLeftSpace (drop (leadingSpace s) s)"
      by (subst trimLeftSpace.simps) simp
    moreover have "length (trimLeftSpace (drop (leadingSpace s) s)) \<le> length s - leadingSpace s"
      using trimLeftSpace_length[of "drop (leadingSpace s) s"] by simp
    ultimately have "length (trimLeftSpace s) < length s"
      using no by (cases s) auto
    with eq show False by simp
  qed
next
  assume "leadingSpace s = 0 \<or> s = []"
  then show "trimLeftSpace s = s"
    by (subst trimLeftSpace.simps) simp
qed

lemma trimRightSpace_fixed: "trimRightSpace s = s \<longleftrightarrow> trailingSpace s = 0 \<or> s = []"
proof
  assume eq: "trimRightSpace s = s"
  show "trailingSpace s = 0 \<or> s = []"
  proof (rule ccontr)
    assume no: "\<not> (trailingSpace s = 0 \<or> s = [])"
    then have "trimRightSpace s = trimRightSpace (take (length s - trailingSpace s) s)"
      by (subst trimRightSpace.simps) simp
    moreover have "length (trimRightSpace (take (length s - trailingSpace s) s))
         \<le> length s - trailingSpace s"
      using trimRightSpace_length[of "take (length s - trailingSpace s) s"] by simp
    ultimately have "length (trimRightSpace s) < length s"
      using no by (cases s) auto
    with eq show False by simp
  qed
next
  assume "trailingSpace s = 0 \<or> s = []"
  then show "trimRightSpace s = s"
    by (subst trimRightSpace.simps) simp
qed

lemma trimSpace_fixed:
  assumes "trimSpace s = s"
  shows "trimLeftSpace s = s" and "trimRightSpace s = s"
proof -
  have "length s = length (trimRightSpace (trimLeftSpace s))"
    using assms by (simp add: trimSpace_def)
  also have "\<dots> \<le> length (trimLeftSpace s)"
    by (rule trimRightSpace_length)
  finally have "length (trimLeftSpace s) = length s"
    using trimLeftSpace_length[of s] by simp
  moreover have "trimLeftSpace s = s \<or> length (trimLeftSpace s) < length s"
  proof (cases "leadingSpace s = 0 \<or> s = []")
    case True
    then show ?thesis by (simp add: trimLeftSpace_fixed)
  next
    case False
    then have "trimLeftSpace s = trimLeftSpace (drop (leadingSpace s) s)"
      by (subst trimLeftSpace.simps) simp
    moreover have "length (trimLeftSpace (drop (leadingSpace s) s)) \<le> length s - leadingSpace s"
      using trimLeftSpace_length[of "drop (leadingSpace s) s"] by simp
    ultimately show ?thesis
      using False by (cases s) auto
  qed
  ultimately show "trimLeftSpace s = s"
    by auto
  with assms show "trimRightSpace s = s"
    by (simp add: trimSpace_def)
qed


lemma trailingSpace_blank: "trailingSpace (s @ '' '') = 1"
  by (simp add: trailingSpace_def spaceEncodings_def)

lemma trimRightSpace_blank: "trimRightSpace (s @ '' '') = trimRightSpace s"
  by (subst trimRightSpace.simps) (simp add: trailingSpace_blank)

lemma encoding_blank_tail: "w \<in> set spaceEncodings \<Longrightarrow> w = a @ '' '' \<Longrightarrow> a = []"
  by (auto simp: spaceEncodings_def Cons_eq_append_conv)

lemma leadingSpace_zero: "leadingSpace s = 0 \<longleftrightarrow> (\<forall>w\<in>set spaceEncodings. \<not> prefix w s)"
proof (cases "find (\<lambda>w. prefix w s) spaceEncodings")
  case None
  then have "\<forall>w\<in>set spaceEncodings. \<not> prefix w s"
    by (simp add: find_None_iff)
  moreover have "leadingSpace s = 0"
    unfolding leadingSpace_def None by simp
  ultimately show ?thesis
    by blast
next
  case (Some w)
  then have "w \<in> set spaceEncodings" "prefix w s"
    by (auto simp: find_Some_iff)
  moreover have "[] \<notin> set spaceEncodings"
    by (simp add: spaceEncodings_def)
  ultimately show ?thesis
    using Some by (auto simp: leadingSpace_def)
qed

lemma leadingSpace_blanks:
  assumes "leadingSpace s = 0" "s \<noteq> []"
  shows "leadingSpace (s @ ''  '') = 0"
proof -
  have none: "\<not> prefix w s" if "w \<in> set spaceEncodings" for w
    using assms(1) that by (simp add: leadingSpace_zero)
  have "\<not> prefix w (s @ ''  '')" if w: "w \<in> set spaceEncodings" for w
  proof
    assume "prefix w (s @ ''  '')"
    then obtain us where us: "w = s @ us" "prefix us ''  ''"
      using none[OF w] by (auto simp: prefix_append)
    then have "us = [] \<or> us = '' '' \<or> us = ''  ''"
      by (cases us; cases "tl us") (auto simp: prefix_Cons)
    then show False
    proof (elim disjE)
      assume "us = []"
      with us none[OF w] show False by simp
    next
      assume "us = '' ''"
      with us encoding_blank_tail[OF w, of s] assms(2) show False by simp
    next
      assume "us = ''  ''"
      with us encoding_blank_tail[OF w, of "s @ '' ''"] show False by simp
    qed
  qed
  then show ?thesis
    by (simp add: leadingSpace_zero)
qed

lemma trimSpace_blanks:
  assumes "trimSpace s = s"
  shows "trimSpace (s @ ''  '') = s"
proof (cases "s = []")
  case True
  have "trimSpace ''  '' = []"
    by code_simp
  with True show ?thesis by simp
next
  case False
  from assms have fixed: "trimLeftSpace s = s" "trimRightSpace s = s"
    by (rule trimSpace_fixed)+
  with False have "leadingSpace s = 0"
    by (simp add: trimLeftSpace_fixed)
  then have "leadingSpace (s @ ''  '') = 0"
    using False by (rule leadingSpace_blanks)
  then have "trimLeftSpace (s @ ''  '') = s @ ''  ''"
    by (simp add: trimLeftSpace_fixed)
  moreover have "trimRightSpace (s @ ''  '') = trimRightSpace s"
    using trimRightSpace_blank[of "s @ '' ''"] trimRightSpace_blank[of s] by simp
  ultimately show ?thesis
    using fixed by (simp add: trimSpace_def)
qed

section \<open>Facts about the status merge\<close>

lemma markers_exclusive:
  "prefix dateMarker l \<Longrightarrow> \<not> prefix statusMarker l \<and> \<not> prefix prevMarker l"
  "prefix headingMarker l \<Longrightarrow> \<not> prefix statusMarker l \<and> \<not> prefix prevMarker l"
  "prefix statusMarker l \<Longrightarrow> \<not> prefix prevMarker l"
  by (auto simp: dateMarker_def statusMarker_def prevMarker_def headingMarker_def prefix_def)

lemma keptLines_append:
  "keptLines df (a @ b) = keptLines df a @ keptLines (df \<or> (\<exists>l\<in>set a. prefix dateMarker l)) b"
  by (induction a arbitrary: df) (auto dest: markers_exclusive)

lemma keptLines_subset: "set (keptLines df ls) \<subseteq> set ls"
  by (induction ls arbitrary: df) auto

lemma keptLines_clean:
  "l \<in> set (keptLines df ls) \<Longrightarrow> \<not> prefix statusMarker l \<and> \<not> prefix prevMarker l"
  by (induction ls arbitrary: df) (auto split: if_splits)

lemma rewriteLoop_kept:
  "sf \<or> (\<forall>l\<in>set ls. \<not> prefix statusMarker l) \<Longrightarrow>
     rewriteLoop new cur ls (acc, sf, df)
       = (acc @ keptLines df ls, sf, df \<or> (\<exists>l\<in>set ls. prefix dateMarker l))"
  by (induction ls arbitrary: acc df) (auto dest: markers_exclusive)

lemma rewriteLoop_first:
  assumes "\<forall>l\<in>set pre. \<not> prefix statusMarker l" "prefix statusMarker s"
  shows "rewriteLoop new cur (pre @ s # post) (acc, False, df)
       = (acc @ keptLines df pre @ [statusMarker @ new @ ''  '', prevMarker @ cur @ ''  '']
            @ keptLines (df \<or> (\<exists>l\<in>set pre. prefix dateMarker l)) post,
          True, df \<or> (\<exists>l\<in>set (pre @ post). prefix dateMarker l))"
  using assms
proof (induction pre arbitrary: acc df)
  case Nil
  then show ?case
    by (simp add: rewriteLoop_kept)
next
  case (Cons l pre)
  then show ?case
    by (auto dest: markers_exclusive)
qed

lemma insertLoop_concat:
  "insertLoop new cur ls (acc, tf)
     = (acc @ concat (map (\<lambda>l. if prefix headingMarker l
                                then [l, [], statusMarker @ new, prevMarker @ cur]
                                else [l]) ls),
        tf \<or> (\<exists>l\<in>set ls. prefix headingMarker l))"
  by (induction ls arbitrary: acc tf) auto

lemma concat_no_heading:
  "\<forall>l\<in>set ls. \<not> p l \<Longrightarrow> concat (map (\<lambda>l. if p l then f l else [l]) ls) = ls"
  by (induction ls) auto

lemma first_status_split:
  assumes "\<exists>l\<in>set lines. prefix statusMarker l"
  shows "\<exists>s post. lines = takeWhile (\<lambda>l. \<not> prefix statusMarker l) lines @ s # post
            \<and> prefix statusMarker s"
proof -
  have "dropWhile (\<lambda>l. \<not> prefix statusMarker l) lines \<noteq> []"
    using assms by simp
  then obtain s post where d: "dropWhile (\<lambda>l. \<not> prefix statusMarker l) lines = s # post"
    by (cases "dropWhile (\<lambda>l. \<not> prefix statusMarker l) lines") auto
  then have "prefix statusMarker s"
    using hd_dropWhile[of "\<lambda>l. \<not> prefix statusMarker l" lines] by auto
  moreover have "lines = takeWhile (\<lambda>l. \<not> prefix statusMarker l) lines @ s # post"
    using d by (metis takeWhile_dropWhile_id)
  ultimately show ?thesis
    by blast
qed

lemma updateStatus_lines:
  "updateStatus content new =
     (if getCurrentStatus content = new then content
      else joinByte newline
             (mergedLines new (getCurrentStatus content) (splitByte newline content)))"
proof (cases "getCurrentStatus content = new")
  case True
  then show ?thesis
    by (simp add: updateStatus_def)
next
  case False
  define lines where "lines = splitByte newline content"
  define cur where "cur = getCurrentStatus content"
  show ?thesis
  proof (cases "\<exists>l\<in>set lines. prefix statusMarker l")
    case True
    then obtain s post where sp: "lines = takeWhile (\<lambda>l. \<not> prefix statusMarker l) lines @ s # post"
        "prefix statusMarker s"
      using first_status_split by blast
    define pre where "pre = takeWhile (\<lambda>l. \<not> prefix statusMarker l) lines"
    have pre: "\<forall>l\<in>set pre. \<not> prefix statusMarker l"
      unfolding pre_def by (auto dest: set_takeWhileD)
    have lines: "lines = pre @ s # post"
      using sp(1) pre_def by simp
    have loop: "rewriteLoop new cur lines ([], False, False)
       = (keptLines False pre @ [statusMarker @ new @ ''  '', prevMarker @ cur @ ''  '']
            @ keptLines (\<exists>l\<in>set pre. prefix dateMarker l) post,
          True, \<exists>l\<in>set (pre @ post). prefix dateMarker l)"
      unfolding lines using rewriteLoop_first[OF pre sp(2), of new cur post "[]" False] by simp
    have "otherLines lines = keptLines False pre @ keptLines (\<exists>l\<in>set pre. prefix dateMarker l) post"
      unfolding otherLines_def lines using sp(2)
      by (simp add: keptLines_append)
    then have "mergedLines new cur lines
       = keptLines False pre @ [statusMarker @ new @ ''  '', prevMarker @ cur @ ''  '']
            @ keptLines (\<exists>l\<in>set pre. prefix dateMarker l) post"
      using True by (simp add: mergedLines_def pre_def[symmetric] otherLines_def)
    with loop False show ?thesis
      by (simp add: updateStatus_def lines_def[symmetric] cur_def[symmetric])
  next
    case none: False
    then have loop: "rewriteLoop new cur lines ([], False, False)
        = (otherLines lines, False, \<exists>l\<in>set lines. prefix dateMarker l)"
      by (simp add: rewriteLoop_kept otherLines_def)
    show ?thesis
    proof (cases "\<exists>l\<in>set (otherLines lines). prefix headingMarker l")
      case True
      with none loop False show ?thesis
        by (simp add: updateStatus_def lines_def[symmetric] cur_def[symmetric]
            insertLoop_concat mergedLines_def)
    next
      case False
      then have "concat (map (\<lambda>l. if prefix headingMarker l
                                then [l, [], statusMarker @ new, prevMarker @ cur]
                                else [l]) (otherLines lines)) = otherLines lines"
        by (intro concat_no_heading) simp
      with none loop False \<open>getCurrentStatus content \<noteq> new\<close> show ?thesis
        by (simp add: updateStatus_def lines_def[symmetric] cur_def[symmetric]
            insertLoop_concat mergedLines_def)
    qed
  qed
qed

lemma trimPrefix_marker: "trimPrefix (m @ x) m = x"
  by (simp add: trimPrefix_def)

lemma trimPrefix_set: "set (trimPrefix s m) \<subseteq> set s"
  by (auto simp: trimPrefix_def dest: in_set_dropD)

lemma firstStatus_free:
  "\<forall>l\<in>set ls. c \<notin> set l \<Longrightarrow> c \<notin> set (firstStatus ls)"
proof (induction ls)
  case Nil
  then show ?case by simp
next
  case (Cons l ls)
  have "set (trimSpace (trimPrefix l statusMarker)) \<subseteq> set l"
    using trimSpace_set trimPrefix_set by blast
  with Cons show ?case
    by auto
qed

lemma currentStatus_free: "newline \<notin> set (getCurrentStatus content)"
  unfolding getCurrentStatus_def
  by (rule firstStatus_free) (auto dest: splitByte_free)

lemma firstStatus_skip:
  "\<forall>l\<in>set a. \<not> prefix statusMarker l \<Longrightarrow> firstStatus (a @ b) = firstStatus b"
  by (induction a) auto

lemma firstStatus_none:
  "\<forall>l\<in>set a. \<not> prefix statusMarker l \<Longrightarrow> firstStatus a = []"
  by (induction a) auto

lemma blank_no_marker:
  "\<not> prefix statusMarker []" "\<not> prefix prevMarker []" "\<not> prefix headingMarker []"
  by (simp_all add: statusMarker_def prevMarker_def headingMarker_def)

lemma new_lines_markers:
  "prefix statusMarker (statusMarker @ x)"
  "\<not> prefix prevMarker (statusMarker @ x)"
  "prefix prevMarker (prevMarker @ x)"
  "\<not> prefix statusMarker (prevMarker @ x)"
  by (simp_all add: statusMarker_def prevMarker_def)

lemma firstStatus_inserted:
  assumes "\<forall>l\<in>set ks. \<not> prefix statusMarker l" "\<exists>l\<in>set ks. prefix headingMarker l"
  shows "firstStatus (concat (map (\<lambda>l. if prefix headingMarker l
                          then [l, [], statusMarker @ new, prevMarker @ cur]
                          else [l]) ks)) = trimSpace new"
  using assms
  by (induction ks) (auto simp: blank_no_marker new_lines_markers trimPrefix_marker)

lemma otherLines_clean:
  "l \<in> set (otherLines ls) \<Longrightarrow> \<not> prefix statusMarker l \<and> \<not> prefix prevMarker l"
  unfolding otherLines_def by (rule keptLines_clean)

lemma firstStatus_merged:
  "firstStatus (mergedLines new cur lines)
     = (if \<exists>l\<in>set lines. prefix statusMarker l then trimSpace (new @ ''  '')
        else trimSpace new)"
proof (cases "\<exists>l\<in>set lines. prefix statusMarker l")
  case True
  have "\<forall>l\<in>set (otherLines (takeWhile (\<lambda>l. \<not> prefix statusMarker l) lines)).
          \<not> prefix statusMarker l"
    by (simp add: otherLines_clean)
  then show ?thesis
    using True
    by (simp add: mergedLines_def firstStatus_skip new_lines_markers trimPrefix_marker)
next
  case False
  have clean: "\<forall>l\<in>set (otherLines lines). \<not> prefix statusMarker l"
    by (simp add: otherLines_clean)
  show ?thesis
  proof (cases "\<exists>l\<in>set (otherLines lines). prefix headingMarker l")
    case True
    with False firstStatus_inserted[OF clean True, of new cur] show ?thesis
      by (simp add: mergedLines_def)
  next
    case noh: False
    with False show ?thesis
      by (simp add: mergedLines_def new_lines_markers trimPrefix_marker)
  qed
qed

lemma marker_free:
  "newline \<notin> set statusMarker" "newline \<notin> set prevMarker" "newline \<noteq> CHR '' ''"
  by (simp_all add: newline_def statusMarker_def prevMarker_def)

lemma mergedLines_free:
  assumes "newline \<notin> set new" "newline \<notin> set cur" "\<forall>l\<in>set lines. newline \<notin> set l"
  shows "\<forall>l\<in>set (mergedLines new cur lines). newline \<notin> set l"
proof -
  have kept: "\<forall>l\<in>set (otherLines ls). newline \<notin> set l" if "set ls \<subseteq> set lines" for ls
    using assms(3) that keptLines_subset[of False ls] unfolding otherLines_def by blast
  have "set (takeWhile (\<lambda>l. \<not> prefix statusMarker l) lines) \<subseteq> set lines"
    by (auto dest: set_takeWhileD)
  from kept[OF this] kept[of lines] assms(1,2) show ?thesis
    by (auto simp: mergedLines_def marker_free dest: in_set_dropD split: if_splits)
qed

lemma mergedLines_nonempty: "mergedLines new cur lines \<noteq> []"
  by (auto simp: mergedLines_def)

lemma merged_output:
  assumes "getCurrentStatus content \<noteq> new" "newline \<notin> set new"
  shows "splitByte newline (updateStatus content new)
           = mergedLines new (getCurrentStatus content) (splitByte newline content)"
proof -
  have "\<forall>l\<in>set (mergedLines new (getCurrentStatus content) (splitByte newline content)).
          newline \<notin> set l"
    using assms(2) currentStatus_free
    by (intro mergedLines_free) (auto dest: splitByte_free)
  then show ?thesis
    using assms(1) by (simp add: updateStatus_lines splitByte_joinByte mergedLines_nonempty)
qed

section \<open>The claims about the status merge\<close>

text \<open>
  Claim C3, as stated, fails: the merge writes the new status followed by two blanks and
  reads the current status back with the white space around it trimmed, so a status that
  itself starts or ends with white space is never read back as written and the second
  merge changes the previous-status line.
\<close>

theorem merge_not_idempotent_for_padded_status:
  "updateStatus (updateStatus ''**Status**: Accepted'' '' Superseded'') '' Superseded''
     \<noteq> updateStatus ''**Status**: Accepted'' '' Superseded''"
  by code_simp

text \<open>
  Claim C3, amended. For every record body and every status that has no white space at
  its ends and no line break, merging the status twice gives the same text as merging it
  once; and for every body and status, when the status equals the current status the body
  is returned unchanged.
\<close>

theorem merge_idempotent:
  assumes "trimSpace newStatus = newStatus" and "newline \<notin> set newStatus"
  shows "updateStatus (updateStatus content newStatus) newStatus = updateStatus content newStatus
       \<and> (getCurrentStatus content = newStatus \<longrightarrow> updateStatus content newStatus = content)"
proof (cases "getCurrentStatus content = newStatus")
  case True
  then show ?thesis
    by (simp add: updateStatus_lines)
next
  case False
  have "getCurrentStatus (updateStatus content newStatus)
      = firstStatus (mergedLines newStatus (getCurrentStatus content) (splitByte newline content))"
    unfolding getCurrentStatus_def[of "updateStatus content newStatus"]
    using False assms(2) by (simp add: merged_output)
  also have "\<dots> = newStatus"
    using assms(1) by (simp add: firstStatus_merged trimSpace_blanks)
  finally have "updateStatus (updateStatus content newStatus) newStatus
      = updateStatus content newStatus"
    by (simp add: updateStatus_lines[of "updateStatus content newStatus"])
  with False show ?thesis
    by simp
qed

theorem merge_idempotent_witness:
  "trimSpace ''Superseded'' = ''Superseded'' \<and> newline \<notin> set ''Superseded''
   \<and> updateStatus (updateStatus ''**Status**: Accepted'' ''Superseded'') ''Superseded''
       = updateStatus ''**Status**: Accepted'' ''Superseded''
   \<and> updateStatus ''**Status**: Accepted'' ''Superseded''
       = ''**Status**: Superseded  '' @ [newline] @ ''**Previous Status**: Accepted  ''
   \<and> getCurrentStatus ''**Status**: Accepted'' = ''Accepted''
   \<and> updateStatus ''**Status**: Accepted'' ''Accepted'' = ''**Status**: Accepted''"
proof -
  have t: "trimSpace ''Superseded'' = ''Superseded''" "trimSpace ''Accepted'' = ''Accepted''"
    by code_simp+
  have n: "newline \<notin> set ''Superseded''" "newline \<notin> set ''Accepted''"
    by (simp_all add: newline_def)
  have c: "getCurrentStatus ''**Status**: Accepted'' = ''Accepted''"
    by code_simp
  have v: "updateStatus ''**Status**: Accepted'' ''Superseded''
       = ''**Status**: Superseded  '' @ [newline] @ ''**Previous Status**: Accepted  ''"
    by code_simp
  from merge_idempotent[OF t(1) n(1), of "''**Status**: Accepted''"]
       merge_idempotent[OF t(2) n(2), of "''**Status**: Accepted''"] t n c v
  show ?thesis
    by simp
qed

lemma otherLines_split:
  assumes "\<exists>l\<in>set lines. prefix statusMarker l"
  shows "otherLines lines
       = otherLines (beforeStatus lines)
           @ drop (length (otherLines (beforeStatus lines))) (otherLines lines)"
proof -
  from first_status_split[OF assms] obtain s post
    where sp: "lines = beforeStatus lines @ s # post" "prefix statusMarker s"
    unfolding beforeStatus_def by blast
  have "otherLines (beforeStatus lines @ s # post)
      = otherLines (beforeStatus lines)
          @ keptLines (\<exists>l\<in>set (beforeStatus lines). prefix dateMarker l) post"
    using sp(2) by (simp add: otherLines_def keptLines_append)
  with sp(1) have "otherLines lines = otherLines (beforeStatus lines)
          @ keptLines (\<exists>l\<in>set (beforeStatus lines). prefix dateMarker l) post"
    by simp
  then show ?thesis
    by (metis append_eq_conv_conj)
qed

lemma inserted_single_heading:
  assumes "\<forall>l\<in>set (a @ b). \<not> prefix headingMarker l" "prefix headingMarker h"
  shows "concat (map (\<lambda>l. if prefix headingMarker l then [l, [], s, p] else [l]) (a @ h # b))
       = a @ [h, [], s, p] @ b"
proof -
  have "concat (map (\<lambda>l. if prefix headingMarker l then [l, [], s, p] else [l]) a) = a"
    "concat (map (\<lambda>l. if prefix headingMarker l then [l, [], s, p] else [l]) b) = b"
    using assms(1) by (auto intro!: concat_no_heading)
  with assms(2) show ?thesis
    by simp
qed

lemma pair_only:
  assumes "\<forall>l\<in>set (a @ b). \<not> prefix statusMarker l \<and> \<not> prefix prevMarker l"
    and "\<forall>l\<in>set m. \<not> prefix statusMarker l \<and> \<not> prefix prevMarker l"
  shows "filter (prefix statusMarker) (a @ m @ [statusMarker @ x, prevMarker @ y] @ b)
           = [statusMarker @ x]"
    and "filter (prefix prevMarker) (a @ m @ [statusMarker @ x, prevMarker @ y] @ b)
           = [prevMarker @ y]"
  using assms by (simp_all add: new_lines_markers filter_empty_conv)

text \<open>
  Claim C2, as stated, fails: for a body with a heading line and no status line the code
  puts a blank line behind the heading before the status line, so the status line does
  not follow the heading immediately.
\<close>

theorem status_not_directly_behind_heading:
  "bodyLines (updateStatus ''# ADR 001: Use Go'' ''Accepted'')
     = [''# ADR 001: Use Go'', [], ''**Status**: Accepted'', ''**Previous Status**: '']"
  by code_simp

text \<open>
  Claim C2, amended. Let the new status differ from the current status and hold no line
  break. All status lines and previous-status lines of the body are removed. If the body
  had a status line, the result holds exactly one status line, with the new value and two
  blanks, followed at once by exactly one previous-status line, with the old value and two
  blanks, at the place of the first status line: behind the kept lines that came before
  it. If the body had no status line, the old value is empty; with exactly one heading
  line among the kept lines, a blank line, the status line and the previous-status line
  are put in behind the heading; with no heading line, the status line, the
  previous-status line and a blank line are put in at the very top. (Bodies with several
  heading lines and no status line are left out.)
\<close>

theorem status_merge_result:
  assumes "getCurrentStatus content \<noteq> newStatus" and "newline \<notin> set newStatus"
  shows
    "((\<exists>l\<in>set (bodyLines content). isStatusLine l) \<longrightarrow>
        (\<exists>after.
            otherLines (bodyLines content) = otherLines (beforeStatus (bodyLines content)) @ after
          \<and> bodyLines (updateStatus content newStatus)
              = otherLines (beforeStatus (bodyLines content))
                  @ [statusMarker @ newStatus @ ''  '',
                     prevMarker @ getCurrentStatus content @ ''  '']
                  @ after)
        \<and> filter isStatusLine (bodyLines (updateStatus content newStatus))
              = [statusMarker @ newStatus @ ''  '']
        \<and> filter isPrevLine (bodyLines (updateStatus content newStatus))
              = [prevMarker @ getCurrentStatus content @ ''  ''])
   \<and> ((\<forall>l\<in>set (bodyLines content). \<not> isStatusLine l) \<longrightarrow>
        getCurrentStatus content = []
      \<and> (\<forall>before heading after.
            otherLines (bodyLines content) = before @ heading # after \<and> isHeadingLine heading
              \<and> (\<forall>l\<in>set (before @ after). \<not> isHeadingLine l)
            \<longrightarrow> bodyLines (updateStatus content newStatus)
                  = before @ [heading, [], statusMarker @ newStatus, prevMarker] @ after
                \<and> filter isStatusLine (bodyLines (updateStatus content newStatus))
                    = [statusMarker @ newStatus]
                \<and> filter isPrevLine (bodyLines (updateStatus content newStatus))
                    = [prevMarker])
      \<and> ((\<forall>l\<in>set (otherLines (bodyLines content)). \<not> isHeadingLine l) \<longrightarrow>
            bodyLines (updateStatus content newStatus)
              = [statusMarker @ newStatus, prevMarker, []] @ otherLines (bodyLines content)
          \<and> filter isStatusLine (bodyLines (updateStatus content newStatus))
              = [statusMarker @ newStatus]
          \<and> filter isPrevLine (bodyLines (updateStatus content newStatus))
              = [prevMarker]))"
proof -
  define lines where "lines = splitByte newline content"
  define cur where "cur = getCurrentStatus content"
  define out where "out = splitByte newline (updateStatus content newStatus)"
  have out: "out = mergedLines newStatus cur lines"
    unfolding cur_def lines_def out_def using assms by (rule merged_output)
  have clean: "\<forall>l\<in>set (otherLines lines). \<not> prefix statusMarker l \<and> \<not> prefix prevMarker l"
    by (simp add: otherLines_clean)
  have a: "(\<exists>after. otherLines lines = otherLines (beforeStatus lines) @ after
          \<and> out = otherLines (beforeStatus lines)
                  @ [statusMarker @ newStatus @ ''  '', prevMarker @ cur @ ''  ''] @ after)
        \<and> filter (prefix statusMarker) out = [statusMarker @ newStatus @ ''  '']
        \<and> filter (prefix prevMarker) out = [prevMarker @ cur @ ''  '']"
    if st: "\<exists>l\<in>set lines. prefix statusMarker l"
  proof -
    define after where "after = drop (length (otherLines (beforeStatus lines))) (otherLines lines)"
    have split: "otherLines lines = otherLines (beforeStatus lines) @ after"
      unfolding after_def using st by (rule otherLines_split)
    have form: "out = otherLines (beforeStatus lines) @ []
                  @ [statusMarker @ (newStatus @ ''  ''), prevMarker @ (cur @ ''  '')] @ after"
      unfolding out after_def using st by (simp add: mergedLines_def beforeStatus_def)
    have parts: "\<forall>l\<in>set (otherLines (beforeStatus lines) @ after).
        \<not> prefix statusMarker l \<and> \<not> prefix prevMarker l"
      using clean split by (metis)
    from pair_only[OF parts, of "[]" "newStatus @ ''  ''" "cur @ ''  ''"] split form
    show ?thesis
      by auto
  qed
  have none: "cur = []" if "\<forall>l\<in>set lines. \<not> prefix statusMarker l"
    unfolding cur_def getCurrentStatus_def lines_def[symmetric]
    using that by (rule firstStatus_none)
  have b: "out = before @ [heading, [], statusMarker @ newStatus, prevMarker] @ after
        \<and> filter (prefix statusMarker) out = [statusMarker @ newStatus]
        \<and> filter (prefix prevMarker) out = [prevMarker]"
    if "\<forall>l\<in>set lines. \<not> prefix statusMarker l"
      and "otherLines lines = before @ heading # after" "prefix headingMarker heading"
      and "\<forall>l\<in>set (before @ after). \<not> prefix headingMarker l"
    for before heading after
  proof -
    have "\<exists>l\<in>set (otherLines lines). prefix headingMarker l"
      using that(2,3) by auto
    then have form: "out = before @ [heading, []] @ [statusMarker @ newStatus, prevMarker @ []] @ after"
      using that(1) none[OF that(1)] inserted_single_heading[OF that(4,3)] that(2)
      by (simp add: out mergedLines_def)
    have parts: "\<forall>l\<in>set (before @ after). \<not> prefix statusMarker l \<and> \<not> prefix prevMarker l"
      using clean that(2) by auto
    have mid: "\<forall>l\<in>set [heading, []]. \<not> prefix statusMarker l \<and> \<not> prefix prevMarker l"
      using that(3) blank_no_marker markers_exclusive(2) by auto
    from pair_only[OF parts mid, of newStatus "[]"] form show ?thesis
      by simp
  qed
  have c: "out = [statusMarker @ newStatus, prevMarker, []] @ otherLines lines
        \<and> filter (prefix statusMarker) out = [statusMarker @ newStatus]
        \<and> filter (prefix prevMarker) out = [prevMarker]"
    if "\<forall>l\<in>set lines. \<not> prefix statusMarker l"
      and "\<forall>l\<in>set (otherLines lines). \<not> prefix headingMarker l"
  proof -
    have form: "out = [statusMarker @ newStatus, prevMarker @ []] @ [] # otherLines lines"
      using that none[OF that(1)] by (simp add: out mergedLines_def)
    have parts: "\<forall>l\<in>set ([] # otherLines lines). \<not> prefix statusMarker l \<and> \<not> prefix prevMarker l"
      using clean blank_no_marker by auto
    from pair_only[of "[]" "[] # otherLines lines" "[]" newStatus "[]"] parts form show ?thesis
      by simp
  qed
  have preds: "isStatusLine = prefix statusMarker" "isPrevLine = prefix prevMarker"
    "isHeadingLine = prefix headingMarker"
    by (auto simp: isStatusLine_def isPrevLine_def isHeadingLine_def)
  show ?thesis
    unfolding bodyLines_def preds lines_def[symmetric] cur_def[symmetric] out_def[symmetric]
    using a none b c by blast
qed

theorem status_merge_result_witness:
  "getCurrentStatus (''# ADR 002: Existing'' @ [newline, newline] @ ''**Status**: Accepted''
       @ [newline, newline] @ ''Test content'') \<noteq> ''Superseded''
   \<and> newline \<notin> set ''Superseded''
   \<and> bodyLines (updateStatus (''# ADR 002: Existing'' @ [newline, newline]
          @ ''**Status**: Accepted'' @ [newline, newline] @ ''Test content'') ''Superseded'')
       = [''# ADR 002: Existing'', [], ''**Status**: Superseded  '',
          ''**Previous Status**: Accepted  '', [], ''Test content'']
   \<and> filter isStatusLine (bodyLines (updateStatus (''# ADR 002: Existing'' @ [newline, newline]
          @ ''**Status**: Accepted'' @ [newline, newline] @ ''Test content'') ''Superseded''))
       = [''**Status**: Superseded  '']"
proof -
  define body where "body = ''# ADR 002: Existing'' @ [newline, newline]
          @ ''**Status**: Accepted'' @ [newline, newline] @ ''Test content''"
  have cur: "getCurrentStatus body = ''Accepted''"
    unfolding body_def by code_simp
  then have h1: "getCurrentStatus body \<noteq> ''Superseded''"
    by simp
  have h2: "newline \<notin> set ''Superseded''"
    by (simp add: newline_def)
  have st: "\<exists>l\<in>set (bodyLines body). isStatusLine l"
  proof -
    have "bodyLines body = [''# ADR 002: Existing'', [], ''**Status**: Accepted'', [], ''Test content'']"
      unfolding body_def by code_simp
    then show ?thesis
      by (simp add: isStatusLine_def statusMarker_def)
  qed
  have v: "bodyLines (updateStatus body ''Superseded'')
       = [''# ADR 002: Existing'', [], ''**Status**: Superseded  '',
          ''**Previous Status**: Accepted  '', [], ''Test content'']"
    unfolding body_def by code_simp
  from status_merge_result[OF h1 h2] st
  have "filter isStatusLine (bodyLines (updateStatus body ''Superseded''))
      = [statusMarker @ ''Superseded'' @ ''  '']"
    by blast
  with h1 h2 v show ?thesis
    unfolding body_def by (simp add: statusMarker_def)
qed












lemma merged_prev_lines:
  "(\<exists>l\<in>set lines. prefix statusMarker l) \<Longrightarrow>
     filter (prefix prevMarker) (mergedLines new cur lines) = [prevMarker @ cur @ ''  '']"
  "\<forall>l\<in>set lines. \<not> prefix statusMarker l \<Longrightarrow>
     prevMarker @ cur \<in> set (mergedLines new cur lines)
     \<and> (\<forall>l\<in>set (mergedLines new cur lines). prefix prevMarker l \<longrightarrow> l = prevMarker @ cur)"
proof -
  have clean: "\<forall>l\<in>set (otherLines ls). \<not> prefix statusMarker l \<and> \<not> prefix prevMarker l" for ls
    by (simp add: otherLines_clean)
  {
    assume st: "\<exists>l\<in>set lines. prefix statusMarker l"
    define after where "after = drop (length (otherLines (beforeStatus lines))) (otherLines lines)"
    have split: "otherLines lines = otherLines (beforeStatus lines) @ after"
      unfolding after_def using st by (rule otherLines_split)
    have form: "mergedLines new cur lines = otherLines (beforeStatus lines) @ []
                  @ [statusMarker @ (new @ ''  ''), prevMarker @ (cur @ ''  '')] @ after"
      unfolding after_def using st by (simp add: mergedLines_def beforeStatus_def)
    have parts: "\<forall>l\<in>set (otherLines (beforeStatus lines) @ after).
        \<not> prefix statusMarker l \<and> \<not> prefix prevMarker l"
      using clean[of lines] split by metis
    from pair_only(2)[OF parts, of "[]" "new @ ''  ''" "cur @ ''  ''"] form
    show "filter (prefix prevMarker) (mergedLines new cur lines) = [prevMarker @ cur @ ''  '']"
      by simp
  }
  {
    assume none: "\<forall>l\<in>set lines. \<not> prefix statusMarker l"
    show "prevMarker @ cur \<in> set (mergedLines new cur lines)
       \<and> (\<forall>l\<in>set (mergedLines new cur lines). prefix prevMarker l \<longrightarrow> l = prevMarker @ cur)"
      using none clean[of lines] blank_no_marker(2) new_lines_markers(2)[of new]
      by (auto simp: mergedLines_def split: if_splits)
  }
qed

text \<open>
  Claim C9, as stated, fails: merging a status into a body that has no status line
  writes a previous-status line, with an empty value.
\<close>

theorem previous_status_without_prior_status:
  "getCurrentStatus ''Decision text'' = []
   \<and> ''**Previous Status**: '' \<in> set (bodyLines (updateStatus ''Decision text'' ''Proposed''))"
  by code_simp

text \<open>
  Claim C9, amended. When the new status equals the current status the body is returned
  as it is, so the merge writes no previous-status line. When the new status (holding no
  line break) differs from the current status, the output holds a previous-status line
  with the current status as its value, also when that value is empty: for a body with a
  status line it is the only previous-status line of the output; for a body without a
  status line the current status is empty, the output holds the previous-status marker
  as a line, and every previous-status line of the output is that line.
\<close>

theorem previous_status_written_on_change:
  "(getCurrentStatus content = newStatus \<longrightarrow> updateStatus content newStatus = content)
   \<and> (getCurrentStatus content \<noteq> newStatus \<and> newline \<notin> set newStatus \<longrightarrow>
        ((\<exists>l\<in>set (bodyLines content). isStatusLine l) \<longrightarrow>
           filter isPrevLine (bodyLines (updateStatus content newStatus))
             = [prevMarker @ getCurrentStatus content @ ''  ''])
      \<and> ((\<forall>l\<in>set (bodyLines content). \<not> isStatusLine l) \<longrightarrow>
           getCurrentStatus content = []
         \<and> prevMarker \<in> set (bodyLines (updateStatus content newStatus))
         \<and> (\<forall>l\<in>set (bodyLines (updateStatus content newStatus)).
               isPrevLine l \<longrightarrow> l = prevMarker)))"
proof (intro conjI impI)
  assume "getCurrentStatus content = newStatus"
  then show "updateStatus content newStatus = content"
    by (simp add: updateStatus_lines)
next
  assume h: "getCurrentStatus content \<noteq> newStatus \<and> newline \<notin> set newStatus"
  then have out: "bodyLines (updateStatus content newStatus)
      = mergedLines newStatus (getCurrentStatus content) (bodyLines content)"
    unfolding bodyLines_def by (intro merged_output) simp_all
  {
    assume "\<exists>l\<in>set (bodyLines content). isStatusLine l"
    then show "filter isPrevLine (bodyLines (updateStatus content newStatus))
             = [prevMarker @ getCurrentStatus content @ ''  '']"
      unfolding out isStatusLine_def isPrevLine_def[abs_def]
      by (rule merged_prev_lines(1))
  }
  {
    assume none: "\<forall>l\<in>set (bodyLines content). \<not> isStatusLine l"
    then have empty: "getCurrentStatus content = []"
      unfolding getCurrentStatus_def bodyLines_def isStatusLine_def
      by (rule firstStatus_none)
    from none merged_prev_lines(2)[of "bodyLines content" "[]" newStatus]
    have "prevMarker \<in> set (bodyLines (updateStatus content newStatus))
         \<and> (\<forall>l\<in>set (bodyLines (updateStatus content newStatus)).
               isPrevLine l \<longrightarrow> l = prevMarker)"
      unfolding out empty isStatusLine_def isPrevLine_def by simp
    with empty show "getCurrentStatus content = []"
      and "prevMarker \<in> set (bodyLines (updateStatus content newStatus))"
      and "\<forall>l\<in>set (bodyLines (updateStatus content newStatus)). isPrevLine l \<longrightarrow> l = prevMarker"
      by simp_all
  }
qed

theorem previous_status_written_on_change_witness:
  "getCurrentStatus ''Decision text'' \<noteq> ''Proposed'' \<and> newline \<notin> set ''Proposed''
   \<and> \<not> isStatusLine ''Decision text''
   \<and> bodyLines ''Decision text'' = [''Decision text'']
   \<and> prevMarker \<in> set (bodyLines (updateStatus ''Decision text'' ''Proposed''))
   \<and> getCurrentStatus ''**Status**: Accepted'' = ''Accepted''
   \<and> updateStatus ''**Status**: Accepted'' ''Accepted'' = ''**Status**: Accepted''"
proof -
  have c: "getCurrentStatus ''Decision text'' \<noteq> ''Proposed''"
  proof -
    have "getCurrentStatus ''Decision text'' = []"
      by code_simp
    then show ?thesis by simp
  qed
  have n: "newline \<notin> set ''Proposed''"
    by (simp add: newline_def)
  have l: "bodyLines ''Decision text'' = [''Decision text'']"
    by code_simp
  have s: "\<not> isStatusLine ''Decision text''"
    by (simp add: isStatusLine_def statusMarker_def)
  have a: "getCurrentStatus ''**Status**: Accepted'' = ''Accepted''"
    by code_simp
  from previous_status_written_on_change[of "''Decision text''" "''Proposed''"] c n l s
  have "prevMarker \<in> set (bodyLines (updateStatus ''Decision text'' ''Proposed''))"
    by simp
  moreover from previous_status_written_on_change[of "''**Status**: Accepted''" "''Accepted''"] a
  have "updateStatus ''**Status**: Accepted'' ''Accepted'' = ''**Status**: Accepted''"
    by simp
  ultimately show ?thesis
    using c n l s a by simp
qed

section \<open>The two front ends\<close>

text \<open>
  Claim C1. The flag form and the prompt form write the same content for the same
  request. They do not: on the record of the repository's own update test, with the title
  left as it is, the flag form writes the status and the previous status without the two
  trailing blanks the prompt form writes, and when the requested status is the current
  one the flag form still adds a previous-status line while the prompt form returns the
  body as it is.
\<close>

theorem front_ends_differ_on_update:
  "getCurrentTitle
     (''# ADR 002: Existing'' @ [newline, newline] @ ''**Status**: Accepted''
        @ [newline, newline] @ ''Test content'')
     = ''Existing''
   \<and> flagUpdateContent
     (''# ADR 002: Existing'' @ [newline, newline] @ ''**Status**: Accepted''
        @ [newline, newline] @ ''Test content'') ''Superseded''
     = ''# ADR 002: Existing'' @ [newline, newline] @ ''**Status**: Superseded'' @ [newline]
         @ ''**Previous Status**: Accepted'' @ [newline, newline] @ ''Test content''
   \<and> promptUpdateContent
     (''# ADR 002: Existing'' @ [newline, newline] @ ''**Status**: Accepted''
        @ [newline, newline] @ ''Test content'') ''Superseded'' ''Existing''
     = ''# ADR 002: Existing'' @ [newline, newline] @ ''**Status**: Superseded  '' @ [newline]
         @ ''**Previous Status**: Accepted  '' @ [newline, newline] @ ''Test content''
   \<and> flagUpdateContent
     (''# ADR 002: Existing'' @ [newline, newline] @ ''**Status**: Accepted''
        @ [newline, newline] @ ''Test content'') ''Accepted''
     = ''# ADR 002: Existing'' @ [newline, newline] @ ''**Status**: Accepted'' @ [newline]
         @ ''**Previous Status**: Accepted'' @ [newline, newline] @ ''Test content''
   \<and> promptUpdateContent
     (''# ADR 002: Existing'' @ [newline, newline] @ ''**Status**: Accepted''
        @ [newline, newline] @ ''Test content'') ''Accepted'' ''Existing''
     = ''# ADR 002: Existing'' @ [newline, newline] @ ''**Status**: Accepted''
        @ [newline, newline] @ ''Test content''"
  by code_simp

end
